theory Spec2Isabelle
  imports Complex_Main "HOL-Library.Multiset"
begin

section \<open>The type model consumed by the class-combining pass\<close>

text \<open>
  The pass in \<^verbatim>\<open>CombineClasses.ts\<close> (\<^verbatim>\<open>src/unnamed/part_001\<close>) imports
  \<^verbatim>\<open>ClassType\<close>, \<^verbatim>\<open>Type\<close>, \<^verbatim>\<open>ClassProperty\<close> and \<^verbatim>\<open>nonNullTypeCases\<close> from
  \<^verbatim>\<open>./Type\<close>, and \<^verbatim>\<open>assert\<close>, \<^verbatim>\<open>panic\<close> from \<^verbatim>\<open>./Support\<close>.  Neither module is
  among the sources, so the declarations below follow section 3 of the specification.
\<close>

text \<open>
  Modelled from the spec: the \<^verbatim>\<open>Type\<close> hierarchy of \<^verbatim>\<open>./Type\<close> (section 3, "Type",
  "ClassProperty", "ClassType").  A type is one of eleven kinds; a class carries the
  graph-scoped reference that identifies the node (\<open>typeRef\<close>), its properties in
  insertion order and the \<open>isFixed\<close> flag.  The property map is an association list
  (the names of a class are unique, section 3):
  \<^verbatim>\<open>.size\<close> is its length, \<^verbatim>\<open>.get\<close> and \<^verbatim>\<open>.has\<close> are \<open>map_of\<close>, \<^verbatim>\<open>.forEach\<close> walks it
  in order.  Finite trees cannot express the cyclic graphs of the original; none of the
  functions below follows a reference, they only call the three operations
  \<^verbatim>\<open>kind\<close>, \<^verbatim>\<open>nonNullTypeCases\<close> and \<^verbatim>\<open>structurallyCompatible\<close>.
\<close>

datatype ty =
    Any | Null | Bool | Integer | Double | String
  | Array ty
  | Map ty
  | Enum "string list"
  | Union "ty list"
  | Class classType
and classType =
    ClassType (typeRef: nat) (properties: "(string \<times> classProperty) list") (isFixed: bool)
and classProperty =
    ClassProperty (type: ty) (isOptional: bool)

text \<open>
  Modelled from the spec: \<^verbatim>\<open>Type.kind\<close>, the immutable kind tag of a type.  The code
  reads it as a string (\<^verbatim>\<open>[string, Type]\<close> in \<^verbatim>\<open>typeSetsCanBeCombined\<close>).
\<close>

fun kind :: "ty \<Rightarrow> string" where
  "kind Any = ''any''"
| "kind Null = ''null''"
| "kind Bool = ''bool''"
| "kind Integer = ''integer''"
| "kind Double = ''double''"
| "kind String = ''string''"
| "kind (Array _) = ''array''"
| "kind (Map _) = ''map''"
| "kind (Enum _) = ''enum''"
| "kind (Union _) = ''union''"
| "kind (Class _) = ''class''"

text \<open>
  Modelled from the spec: \<^verbatim>\<open>nonNullTypeCases\<close> of \<^verbatim>\<open>./Type\<close> (sections 3 and 6): "the
  member types of a property's type excluding Null", "strips Null from a (possibly
  union) type".  The ordered set it returns is the list of its elements.
\<close>

fun nonNullTypeCases :: "ty \<Rightarrow> ty list" where
  "nonNullTypeCases Null = []"
| "nonNullTypeCases (Union members) = filter (\<lambda>m. m \<noteq> Null) members"
| "nonNullTypeCases t = [t]"

text \<open>
  Modelled from the spec: \<^verbatim>\<open>assert\<close> and \<^verbatim>\<open>panic\<close> of \<^verbatim>\<open>./Support\<close> (sections 4.5 and 7):
  a failed assertion and a panic are fatal and abort the pass.  The exception is the
  \<open>Inl\<close> branch of every result below; the string is the message of the source.
\<close>

datatype error = AssertionFailure string | Panic string

definition assert :: "bool \<Rightarrow> string \<Rightarrow> error + unit" where
  "assert condition message = (if condition then Inr () else Inl (AssertionFailure message))"

definition panic :: "string \<Rightarrow> error + 'a" where
  "panic message = Inl (Panic message)"

text \<open>
  \<^verbatim>\<open>Type.structurallyCompatible\<close> is consumed, not implemented, by the pass (section 4.1).
  Every function below takes it as its first argument \<open>sc\<close>, so the general theorems
  hold for whatever predicate the type model supplies.
\<close>

type_synonym compat = "ty \<Rightarrow> ty \<Rightarrow> bool"

section \<open>Type-set combinability\<close>

text \<open>
  \<^verbatim>\<open>const s2ByKind = Map(s2.map((t): [string, Type] => [t.kind, t]))\<close>: the map is built
  by inserting the pairs in the order of \<open>s2\<close>, a later type of the same kind replacing
  an earlier one.
\<close>

definition byKind :: "ty list \<Rightarrow> (string \<rightharpoonup> ty)" where
  "byKind s = fold (\<lambda>t m. m(kind t \<mapsto> t)) s Map.empty"

definition typeSetsCanBeCombined :: "compat \<Rightarrow> ty list \<Rightarrow> ty list \<Rightarrow> bool" where
  "typeSetsCanBeCombined sc s1 s2 =
     (if length s1 \<noteq> length s2 then False
      else
        let s2ByKind = byKind s2 in
        list_all (\<lambda>t.
          let kind = kind t; other = s2ByKind kind in
          (case other of None \<Rightarrow> False | Some other' \<Rightarrow> sc t other')) s1)"

section \<open>The class combinability heuristic\<close>

text \<open>
  \<^verbatim>\<open>const REQUIRED_OVERLAP = 3 / 4\<close>.  The source computes with IEEE doubles; \<open>3 / 4\<close>
  and every product of a collection size with it are exact there, so the rationals
  give the same comparisons and the same ceiling.
\<close>

definition REQUIRED_OVERLAP :: rat where
  "REQUIRED_OVERLAP = 3 / 4"

type_synonym propertyMap = "(string \<times> classProperty) list"

definition has :: "propertyMap \<Rightarrow> string \<Rightarrow> bool" where
  "has m name = (map_of m name \<noteq> None)"

text \<open>The size-ratio test of line 37; when it holds \<^verbatim>\<open>canBeCombined\<close> returns false.\<close>

definition sizeGateRejects :: "propertyMap \<Rightarrow> propertyMap \<Rightarrow> bool" where
  "sizeGateRejects p1 p2 =
     (of_nat (length p1) < of_nat (length p2) * REQUIRED_OVERLAP \<or>
      of_nat (length p2) < of_nat (length p1) * REQUIRED_OVERLAP)"

text \<open>Lines 40 to 48: the pair \<open>(larger, smaller)\<close>; a tie makes \<open>p2\<close> the larger.\<close>

definition largerSmaller :: "propertyMap \<Rightarrow> propertyMap \<Rightarrow> propertyMap \<times> propertyMap" where
  "largerSmaller p1 p2 = (if length p1 > length p2 then (p1, p2) else (p2, p1))"

text \<open>Lines 49 and 50: \<^verbatim>\<open>minOverlap\<close> and \<^verbatim>\<open>maxFaults\<close>.\<close>

definition minOverlap :: "propertyMap \<Rightarrow> int" where
  "minOverlap larger = \<lceil>of_nat (length larger) * REQUIRED_OVERLAP\<rceil>"

definition maxFaults :: "propertyMap \<Rightarrow> propertyMap \<Rightarrow> int" where
  "maxFaults larger smaller = int (length smaller) - minOverlap larger"

text \<open>
  Lines 52 to 61: \<^verbatim>\<open>smaller.forEach\<close>.  The state is \<open>(commonProperties, faults)\<close>.  The
  callback returns \<^verbatim>\<open>false\<close> once the faults exceed the budget, which ends the iteration
  of an Immutable collection; the state of that moment is what line 62 reads.
\<close>

fun scanSmaller ::
  "propertyMap \<Rightarrow> int \<Rightarrow> propertyMap \<Rightarrow> string list \<times> int \<Rightarrow> string list \<times> int" where
  "scanSmaller larger maxF [] (commonProperties, faults) = (commonProperties, faults)"
| "scanSmaller larger maxF ((name, _) # rest) (commonProperties, faults) =
     (if has larger name then scanSmaller larger maxF rest (commonProperties @ [name], faults)
      else
        let faults' = faults + 1 in
        if faults' > maxF then (commonProperties, faults')
        else scanSmaller larger maxF rest (commonProperties, faults'))"

text \<open>
  Lines 63 to 75: the loop over the common names.  A name missing on either side is the
  panic of line 67 (\<open>tl'\<close> is the \<^verbatim>\<open>tl\<close> of the source, a constant of HOL); a conflict of two non-empty case sets returns false; the end of the
  list returns true.
\<close>

fun compareCommon ::
  "compat \<Rightarrow> propertyMap \<Rightarrow> propertyMap \<Rightarrow> string list \<Rightarrow> error + bool" where
  "compareCommon sc smaller larger [] = Inr True"
| "compareCommon sc smaller larger (name # names) =
     (case (map_of smaller name, map_of larger name) of
        (Some ts, Some tl') \<Rightarrow>
          let tsCases = nonNullTypeCases (type ts);
              tlCases = nonNullTypeCases (type tl')
          in
            if tsCases \<noteq> [] \<and> tlCases \<noteq> [] \<and> \<not> typeSetsCanBeCombined sc tsCases tlCases
            then Inr False
            else compareCommon sc smaller larger names
      | _ \<Rightarrow> panic ''Both of these should have this property'')"

definition canBeCombined :: "compat \<Rightarrow> classType \<Rightarrow> classType \<Rightarrow> error + bool" where
  "canBeCombined sc c1 c2 =
     (let p1 = properties c1; p2 = properties c2 in
      if sizeGateRejects p1 p2 then Inr False
      else
        let (larger, smaller) = largerSmaller p1 p2;
            maxF = maxFaults larger smaller
        in
          (case assert (maxF \<ge> 0) ''Max faults negative'' of
             Inl e \<Rightarrow> Inl e
           | Inr _ \<Rightarrow>
               let (commonProperties, faults) = scanSmaller larger maxF smaller ([], 0) in
               if faults > maxF then Inr False
               else compareCommon sc smaller larger commonProperties))"

section \<open>The clique finder\<close>

record clique =
  members :: "classType list"
  prototypes :: "classType list"

text \<open>
  Lines 85 to 91: the second loop of \<^verbatim>\<open>tryAddToClique\<close>, which asks \<^verbatim>\<open>canBeCombined\<close>
  for each prototype in order and stops at the first that answers true.
\<close>

fun anyCanBeCombined :: "compat \<Rightarrow> classType list \<Rightarrow> classType \<Rightarrow> error + bool" where
  "anyCanBeCombined sc [] c = Inr False"
| "anyCanBeCombined sc (prototype # ps) c =
     (case canBeCombined sc prototype c of
        Inl e \<Rightarrow> Inl e
      | Inr True \<Rightarrow> Inr True
      | Inr False \<Rightarrow> anyCanBeCombined sc ps c)"

text \<open>
  \<^verbatim>\<open>tryAddToClique\<close> mutates the clique and returns a boolean; the model returns the
  boolean together with the clique after the call.
\<close>

definition tryAddToClique :: "compat \<Rightarrow> classType \<Rightarrow> clique \<Rightarrow> error + (bool \<times> clique)" where
  "tryAddToClique sc c clique =
     (if list_ex (\<lambda>prototype. sc (Class prototype) (Class c)) (prototypes clique)
      then Inr (True, clique\<lparr>members := members clique @ [c]\<rparr>)
      else
        (case anyCanBeCombined sc (prototypes clique) c of
           Inl e \<Rightarrow> Inl e
         | Inr True \<Rightarrow>
             Inr (True, clique\<lparr>prototypes := prototypes clique @ [c],
                              members := members clique @ [c]\<rparr>)
         | Inr False \<Rightarrow> Inr (False, clique)))"

text \<open>
  Lines 110 to 115: the scan of \<^verbatim>\<open>unprocessedClasses[1..]\<close>; the state is the clique and
  \<^verbatim>\<open>classesLeft\<close>.
\<close>

fun scanCandidates ::
  "compat \<Rightarrow> classType list \<Rightarrow> clique \<Rightarrow> classType list \<Rightarrow> error + (clique \<times> classType list)" where
  "scanCandidates sc [] clique classesLeft = Inr (clique, classesLeft)"
| "scanCandidates sc (c # cs) clique classesLeft =
     (case tryAddToClique sc c clique of
        Inl e \<Rightarrow> Inl e
      | Inr (added, clique') \<Rightarrow>
          scanCandidates sc cs clique' (if \<not> added then classesLeft @ [c] else classesLeft))"

lemma scanCandidates_length:
  "scanCandidates sc cs clique classesLeft = Inr (clique', classesLeft') \<Longrightarrow>
   length classesLeft' \<le> length classesLeft + length cs"
proof (induction cs arbitrary: clique classesLeft)
  case Nil
  then show ?case by simp
next
  case (Cons c cs)
  from Cons.prems obtain added cl where
    step: "tryAddToClique sc c clique = Inr (added, cl)" and
    rest: "scanCandidates sc cs cl (if \<not> added then classesLeft @ [c] else classesLeft)
             = Inr (clique', classesLeft')"
    by (auto split: sum.splits)
  from Cons.IH [OF rest] show ?case by (simp split: if_splits)
qed

text \<open>
  Lines 106 to 122: the \<^verbatim>\<open>while\<close> loop, with \<^verbatim>\<open>unprocessedClasses\<close> and \<^verbatim>\<open>cliques\<close> as
  its state.  Each round removes at least the seed, which is the termination argument.
\<close>

function cliqueLoop ::
  "compat \<Rightarrow> classType list \<Rightarrow> classType list list \<Rightarrow> error + classType list list" where
  "cliqueLoop sc [] cliques = Inr cliques"
| "cliqueLoop sc (seed # rest) cliques =
     (case scanCandidates sc rest \<lparr>members = [seed], prototypes = [seed]\<rparr> [] of
        Inl e \<Rightarrow> Inl e
      | Inr (clique, classesLeft) \<Rightarrow>
          cliqueLoop sc classesLeft
            (if length (members clique) > 1 then cliques @ [members clique] else cliques))"
  by pat_completeness auto
termination
proof (relation "measure (\<lambda>(sc, unprocessedClasses, cliques). length unprocessedClasses)")
  show "wf (measure (\<lambda>(sc, unprocessedClasses, cliques). length unprocessedClasses))"
    by simp
next
  fix sc :: compat and seed rest cliques x2 clique classesLeft
  assume "scanCandidates sc rest \<lparr>members = [seed], prototypes = [seed]\<rparr> [] = Inr x2"
    and "(clique, classesLeft) = x2"
  then have "length classesLeft \<le> length rest"
    using scanCandidates_length [of sc rest _ "[]" clique classesLeft] by simp
  then show "((sc, classesLeft,
               if 1 < length (members clique) then cliques @ [members clique] else cliques),
              sc, seed # rest, cliques)
             \<in> measure (\<lambda>(sc, unprocessedClasses, cliques). length unprocessedClasses)"
    by simp
qed

text \<open>
  Modelled from the spec: \<^verbatim>\<open>TypeGraph\<close> of \<^verbatim>\<open>./TypeGraph\<close>, of which the finder reads
  only \<^verbatim>\<open>allNamedTypesSeparated().classes\<close> (section 6: "enumerates candidate classes").
  The graph identifies a node by its reference, so the classes it enumerates have
  pairwise different \<open>typeRef\<close>s; theorems that need this say so.
\<close>

record typeGraph =
  allNamedClasses :: "classType list"

definition findSimilarityCliques :: "compat \<Rightarrow> typeGraph \<Rightarrow> bool \<Rightarrow> error + classType list list" where
  "findSimilarityCliques sc graph includeFixedClasses =
     (let unprocessedClasses =
            filter (\<lambda>c. includeFixedClasses \<or> \<not> isFixed c) (allNamedClasses graph)
      in cliqueLoop sc unprocessedClasses [])"

section \<open>The orchestrator\<close>

text \<open>
  \<^verbatim>\<open>combineClasses\<close> hands its cliques to collaborators that are not part of the pass:
  \<^verbatim>\<open>Type.getAttributes\<close>, \<^verbatim>\<open>combineTypeAttributes\<close>, \<^verbatim>\<open>unionBuilderForUnification\<close>,
  \<^verbatim>\<open>unifyTypes\<close> and \<^verbatim>\<open>TypeGraph.rewrite\<close>.  They are the fields of one record, with
  the argument lists of the calls in the source; attribute bags, builders, references
  and the string-type mapping are type parameters.  The unifier and the rewrite may
  fail, as any callee that asserts may.
\<close>

record ('attrs, 'builder, 'ubuilder, 'ref, 'mapping) collaborators =
  getAttributes :: "classType \<Rightarrow> 'attrs"
  combineTypeAttributes :: "'attrs list \<Rightarrow> 'attrs"
  unionBuilderForUnification :: "'builder \<Rightarrow> bool \<Rightarrow> bool \<Rightarrow> bool \<Rightarrow> 'ubuilder"
  unifyTypes ::
    "classType list \<Rightarrow> 'attrs \<Rightarrow> 'builder \<Rightarrow> 'ubuilder \<Rightarrow> bool \<Rightarrow> 'ref \<Rightarrow> error + 'ref"
  rewrite ::
    "typeGraph \<Rightarrow> string \<Rightarrow> 'mapping \<Rightarrow> bool \<Rightarrow> classType list list \<Rightarrow>
     (classType list \<Rightarrow> 'builder \<Rightarrow> 'ref \<Rightarrow> error + 'ref) \<Rightarrow> error + typeGraph"

text \<open>
  Lines 135 to 150.  The clique is an Immutable \<^verbatim>\<open>Set\<close>; the list holds its elements,
  so \<^verbatim>\<open>clique.size\<close> is the length.  \<open>conflateNumbers\<close> is the variable the closure
  captures from \<^verbatim>\<open>combineClasses\<close>.
\<close>

definition makeCliqueClass ::
  "('attrs, 'builder, 'ubuilder, 'ref, 'mapping) collaborators \<Rightarrow> bool \<Rightarrow>
   classType list \<Rightarrow> 'builder \<Rightarrow> 'ref \<Rightarrow> error + 'ref" where
  "makeCliqueClass ext conflateNumbers clique builder forwardingRef =
     (case assert (length clique > 0) ''Clique can't be empty'' of
        Inl e \<Rightarrow> Inl e
      | Inr _ \<Rightarrow>
          let attributes = combineTypeAttributes ext (map (getAttributes ext) clique) in
          unifyTypes ext clique attributes builder
            (unionBuilderForUnification ext builder False False conflateNumbers)
            conflateNumbers forwardingRef)"

definition combineClasses ::
  "compat \<Rightarrow> ('attrs, 'builder, 'ubuilder, 'ref, 'mapping) collaborators \<Rightarrow>
   typeGraph \<Rightarrow> 'mapping \<Rightarrow> bool \<Rightarrow> bool \<Rightarrow> error + typeGraph" where
  "combineClasses sc ext graph stringTypeMapping alphabetizeProperties conflateNumbers =
     (case findSimilarityCliques sc graph False of
        Inl e \<Rightarrow> Inl e
      | Inr cliques \<Rightarrow>
          rewrite ext graph ''combine classes'' stringTypeMapping alphabetizeProperties cliques
            (makeCliqueClass ext conflateNumbers))"

section \<open>A structural-compatibility predicate for the examples\<close>

text \<open>
  Modelled from the spec: \<^verbatim>\<open>Type.structurallyCompatible\<close> of \<^verbatim>\<open>./Type\<close> (section 4.1): "an
  exact-shape equality for two types of the same kind (e.g. two classes with identical
  property names/types/optionality ...)".  The shape of a type forgets the identity of
  its class nodes and their \<open>isFixed\<close> flags; two types are compatible when their
  shapes are equal.  Members, cases and properties are compared in their order, so the
  predicate is finer than the original on types that differ in that order alone; the
  closed examples, which alone use it, have no such types.
\<close>

primrec shape :: "ty \<Rightarrow> ty"
  and shapeClass :: "classType \<Rightarrow> classType"
  and shapeProperty :: "classProperty \<Rightarrow> classProperty" where
  "shape Any = Any"
| "shape Null = Null"
| "shape Bool = Bool"
| "shape Integer = Integer"
| "shape Double = Double"
| "shape String = String"
| "shape (Array t) = Array (shape t)"
| "shape (Map t) = Map (shape t)"
| "shape (Enum cs) = Enum cs"
| "shape (Union ms) = Union (map shape ms)"
| "shape (Class c) = Class (shapeClass c)"
| "shapeClass (ClassType r ps f) = ClassType 0 (map (map_prod id shapeProperty) ps) False"
| "shapeProperty (ClassProperty t opt) = ClassProperty (shape t) opt"

definition structurallyCompatible :: compat where
  "structurallyCompatible a b = (shape a = shape b)"

section \<open>Well-formed classes\<close>

text \<open>
  Modelled from the spec: the invariants of section 3 on the data that \<^verbatim>\<open>./Type\<close> builds.
  "\<open>Class.properties\<close> has unique names", and the members of a union are "each a distinct
  kind", so the non-null type cases of a property have pairwise different kinds.
\<close>

definition wellFormedClass :: "classType \<Rightarrow> bool" where
  "wellFormedClass c =
     (distinct (map fst (properties c)) \<and>
      list_all (\<lambda>p. distinct (map kind (nonNullTypeCases (type (snd p))))) (properties c))"

section \<open>Example classes\<close>

definition plain :: "ty \<Rightarrow> classProperty" where
  "plain t = ClassProperty t False"

text \<open>The classes of section 8 of the specification: two, three and four properties.\<close>

definition exTwo :: classType where
  "exTwo = ClassType 1 [(''a'', plain String), (''b'', plain Integer)] False"

definition exThree :: classType where
  "exThree = ClassType 2 [(''a'', plain String), (''b'', plain Integer), (''c'', plain String)] False"

definition exFour :: classType where
  "exFour = ClassType 3
     [(''a'', plain String), (''b'', plain Integer), (''c'', plain String), (''d'', plain Bool)] False"

text \<open>Three classes with the one property \<open>a\<close>: a string, a null and an integer.\<close>

definition exString :: classType where
  "exString = ClassType 4 [(''a'', plain String)] False"

definition exNull :: classType where
  "exNull = ClassType 5 [(''a'', plain Null)] False"

definition exInteger :: classType where
  "exInteger = ClassType 6 [(''a'', plain Integer)] False"

text \<open>A fixed class with the shape of \<open>exThree\<close>, and a graph of the seven classes.\<close>

definition exFixed :: classType where
  "exFixed = ClassType 7 [(''a'', plain String), (''b'', plain Integer), (''c'', plain String)] True"

definition exGraph :: typeGraph where
  "exGraph = \<lparr>allNamedClasses = [exTwo, exThree, exFixed, exFour, exString, exNull, exInteger]\<rparr>"

text \<open>
  Stand-ins for the collaborators, for the closed examples only: attribute bags and
  builders are trivial, the unifier answers with the forwarding reference, and the
  rewrite answers with a graph of exactly the classes it was asked to replace.
\<close>

definition exCollaborators :: "(unit, unit, unit, nat, unit) collaborators" where
  "exCollaborators =
     \<lparr>getAttributes = (\<lambda>c. ()),
      combineTypeAttributes = (\<lambda>as. ()),
      unionBuilderForUnification = (\<lambda>builder a b conflateNumbers. ()),
      unifyTypes = (\<lambda>clique attributes builder unionBuilder conflateNumbers forwardingRef.
         Inr forwardingRef),
      rewrite = (\<lambda>graph title stringTypeMapping alphabetizeProperties cliques makeReplacement.
         Inr \<lparr>allNamedClasses = concat cliques\<rparr>)\<rparr>"

section \<open>Type-set combinability: theorems\<close>

lemma fold_byKind_lookup:
  "fold (\<lambda>t m. m(kind t \<mapsto> t)) s m k = Some other \<Longrightarrow>
   (other \<in> set s \<and> kind other = k) \<or> m k = Some other"
proof (induction s arbitrary: m)
  case Nil
  then show ?case by simp
next
  case (Cons a s)
  from Cons.prems have "fold (\<lambda>t m. m(kind t \<mapsto> t)) s (m(kind a \<mapsto> a)) k = Some other"
    by (simp only: fold_simps)
  from Cons.IH [OF this] show ?case
    by (cases "k = kind a") (simp_all only: fun_upd_apply set_simps insert_iff option.inject, auto)
qed

lemma byKind_Some: "byKind s k = Some other \<Longrightarrow> other \<in> set s \<and> kind other = k"
  using fold_byKind_lookup [of s Map.empty k other] by (simp add: byKind_def)

text \<open>
  Claim C6.  \<^verbatim>\<open>typeSetsCanBeCombined(s1, s2)\<close> is false whenever the two sets differ in
  size.  When the sizes are equal it is true exactly when every type of \<open>s1\<close> finds, in
  the index of \<open>s2\<close> by kind, a counterpart that is an element of \<open>s2\<close>, has the same
  kind and is structurally compatible with it; a type is never matched against an
  alternative of another kind.
\<close>

theorem typeSetsCanBeCombined_spec:
  "(length s1 \<noteq> length s2 \<longrightarrow> \<not> typeSetsCanBeCombined sc s1 s2) \<and>
   (length s1 = length s2 \<longrightarrow>
      typeSetsCanBeCombined sc s1 s2 =
        (\<forall>t \<in> set s1. \<exists>other \<in> set s2.
            kind other = kind t \<and> byKind s2 (kind t) = Some other \<and> sc t other))"
proof (intro conjI impI)
  assume "length s1 \<noteq> length s2"
  then show "\<not> typeSetsCanBeCombined sc s1 s2"
    by (simp add: typeSetsCanBeCombined_def)
next
  assume eq: "length s1 = length s2"
  have "typeSetsCanBeCombined sc s1 s2 =
          (\<forall>t \<in> set s1. \<exists>other. byKind s2 (kind t) = Some other \<and> sc t other)"
    using eq by (auto simp: typeSetsCanBeCombined_def list_all_iff split: option.splits)
  also have "\<dots> = (\<forall>t \<in> set s1. \<exists>other \<in> set s2.
            kind other = kind t \<and> byKind s2 (kind t) = Some other \<and> sc t other)"
    using byKind_Some by blast
  finally show "typeSetsCanBeCombined sc s1 s2 =
        (\<forall>t \<in> set s1. \<exists>other \<in> set s2.
            kind other = kind t \<and> byKind s2 (kind t) = Some other \<and> sc t other)" .
qed

theorem typeSetsCanBeCombined_spec_witness:
  "typeSetsCanBeCombined structurallyCompatible [String, Integer] [Integer, String] \<and>
   \<not> typeSetsCanBeCombined structurallyCompatible [String, Integer] [Integer, Double] \<and>
   \<not> typeSetsCanBeCombined structurallyCompatible [String] [Integer, String]"
  using typeSetsCanBeCombined_spec [of "[String, Integer]" "[Integer, String]" structurallyCompatible]
    typeSetsCanBeCombined_spec [of "[String, Integer]" "[Integer, Double]" structurallyCompatible]
    typeSetsCanBeCombined_spec [of "[String]" "[Integer, String]" structurallyCompatible]
  by (simp add: byKind_def structurallyCompatible_def)

section \<open>The class combinability heuristic: theorems\<close>

subsection \<open>The fault budget\<close>

lemma ceiling_overlap_le:
  assumes "\<not> of_nat s < (of_nat l :: rat) * REQUIRED_OVERLAP"
  shows "\<lceil>(of_nat l :: rat) * REQUIRED_OVERLAP\<rceil> \<le> int s"
proof -
  from assms have "(of_nat l :: rat) * REQUIRED_OVERLAP \<le> of_int (int s)" by simp
  then show ?thesis by (simp only: ceiling_le_iff)
qed

lemma maxFaults_nonneg_aux:
  assumes "\<not> sizeGateRejects p1 p2"
  shows "0 \<le> maxFaults (fst (largerSmaller p1 p2)) (snd (largerSmaller p1 p2))"
  using assms ceiling_overlap_le [of "length p1" "length p2"]
    ceiling_overlap_le [of "length p2" "length p1"]
  by (auto simp: sizeGateRejects_def largerSmaller_def maxFaults_def minOverlap_def)

subsection \<open>The scan of the smaller record\<close>

lemma scanSmaller_within:
  "faults + int (length (filter (\<lambda>p. \<not> has larger (fst p)) rest)) \<le> maxF \<Longrightarrow>
   scanSmaller larger maxF rest (common, faults) =
     (common @ map fst (filter (\<lambda>p. has larger (fst p)) rest),
      faults + int (length (filter (\<lambda>p. \<not> has larger (fst p)) rest)))"
proof (induction rest arbitrary: common faults)
  case Nil
  then show ?case by simp
next
  case (Cons p rest)
  obtain name q where p: "p = (name, q)" by (cases p)
  show ?case
  proof (cases "has larger name")
    case True
    with Cons.prems p Cons.IH [of faults "common @ [name]"] show ?thesis by simp
  next
    case False
    with Cons.prems p Cons.IH [of "faults + 1" common] show ?thesis by (simp add: Let_def)
  qed
qed

lemma scanSmaller_exceeds:
  "faults \<le> maxF \<Longrightarrow>
   maxF < faults + int (length (filter (\<lambda>p. \<not> has larger (fst p)) rest)) \<Longrightarrow>
   maxF < snd (scanSmaller larger maxF rest (common, faults))"
proof (induction rest arbitrary: common faults)
  case Nil
  then show ?case by simp
next
  case (Cons p rest)
  obtain name q where p: "p = (name, q)" by (cases p)
  show ?case
  proof (cases "has larger name")
    case True
    with Cons.prems p Cons.IH [of faults "common @ [name]"] show ?thesis by simp
  next
    case False
    show ?thesis
    proof (cases "faults + 1 > maxF")
      case True
      with False p show ?thesis by (simp add: Let_def)
    next
      case over: False
      with False Cons.prems p Cons.IH [of "faults + 1" common] show ?thesis
        by (simp add: Let_def)
    qed
  qed
qed

subsection \<open>The comparison of the common properties\<close>

lemma compareCommon_total:
  "\<forall>name \<in> set names. has smaller name \<and> has larger name \<Longrightarrow>
   compareCommon sc smaller larger names =
     Inr (\<forall>name \<in> set names. \<forall>ts tl'.
            map_of smaller name = Some ts \<and> map_of larger name = Some tl' \<and>
            nonNullTypeCases (type ts) \<noteq> [] \<and> nonNullTypeCases (type tl') \<noteq> [] \<longrightarrow>
            typeSetsCanBeCombined sc (nonNullTypeCases (type ts)) (nonNullTypeCases (type tl')))"
proof (induction names)
  case Nil
  then show ?case by simp
next
  case (Cons name names)
  from Cons.prems obtain ts tl' where
    look: "map_of smaller name = Some ts" "map_of larger name = Some tl'"
    by (auto simp: has_def)
  from Cons.prems have "\<forall>name \<in> set names. has smaller name \<and> has larger name" by simp
  note IH = Cons.IH [OF this]
  show ?case
    using look IH by (auto simp: Let_def)
qed

lemma has_filter_names:
  "\<forall>name \<in> set (map fst (filter (\<lambda>p. has larger (fst p)) smaller)).
     has smaller name \<and> has larger name"
proof -
  have "has smaller (fst p)" if "p \<in> set smaller" for p
    using that by (simp add: has_def map_of_eq_None_iff)
  then show ?thesis by auto
qed

lemma common_names_set:
  "set (map fst (filter (\<lambda>p. has larger (fst p)) smaller)) =
   {name. has smaller name \<and> has larger name}"
proof -
  have "has smaller name \<longleftrightarrow> name \<in> fst ` set smaller" for name
    by (simp add: has_def map_of_eq_None_iff)
  then show ?thesis by auto
qed

subsection \<open>What \<^verbatim>\<open>canBeCombined\<close> computes\<close>

lemma canBeCombined_char:
  "canBeCombined sc c1 c2 =
     (let (larger, smaller) = largerSmaller (properties c1) (properties c2) in
      Inr (\<not> sizeGateRejects (properties c1) (properties c2) \<and>
           int (length (filter (\<lambda>p. \<not> has larger (fst p)) smaller)) \<le> maxFaults larger smaller \<and>
           (\<forall>name ts tl'.
              map_of smaller name = Some ts \<and> map_of larger name = Some tl' \<and>
              nonNullTypeCases (type ts) \<noteq> [] \<and> nonNullTypeCases (type tl') \<noteq> [] \<longrightarrow>
              typeSetsCanBeCombined sc (nonNullTypeCases (type ts)) (nonNullTypeCases (type tl')))))"
proof (cases "sizeGateRejects (properties c1) (properties c2)")
  case True
  then show ?thesis by (simp add: canBeCombined_def split: prod.splits)
next
  case gate: False
  obtain larger smaller where ls: "largerSmaller (properties c1) (properties c2) = (larger, smaller)"
    by (cases "largerSmaller (properties c1) (properties c2)")
  define maxF where "maxF = maxFaults larger smaller"
  have nonneg: "0 \<le> maxF"
    using maxFaults_nonneg_aux [OF gate] ls by (simp add: maxF_def)
  define k where "k = int (length (filter (\<lambda>p. \<not> has larger (fst p)) smaller))"
  have unfold: "canBeCombined sc c1 c2 =
      (let (commonProperties, faults) = scanSmaller larger maxF smaller ([], 0) in
       if faults > maxF then Inr False
       else compareCommon sc smaller larger commonProperties)"
    using gate ls nonneg by (simp add: canBeCombined_def maxF_def assert_def Let_def)
  show ?thesis
  proof (cases "k \<le> maxF")
    case True
    then have scan: "scanSmaller larger maxF smaller ([], 0) =
        (map fst (filter (\<lambda>p. has larger (fst p)) smaller), k)"
      using scanSmaller_within [of 0 larger smaller maxF "[]"] by (simp add: k_def)
    have "canBeCombined sc c1 c2 =
        compareCommon sc smaller larger (map fst (filter (\<lambda>p. has larger (fst p)) smaller))"
      using unfold scan True by simp
    also have "\<dots> = Inr (\<forall>name \<in> set (map fst (filter (\<lambda>p. has larger (fst p)) smaller)). \<forall>ts tl'.
            map_of smaller name = Some ts \<and> map_of larger name = Some tl' \<and>
            nonNullTypeCases (type ts) \<noteq> [] \<and> nonNullTypeCases (type tl') \<noteq> [] \<longrightarrow>
            typeSetsCanBeCombined sc (nonNullTypeCases (type ts)) (nonNullTypeCases (type tl')))"
      by (rule compareCommon_total [OF has_filter_names])
    also have "\<dots> = Inr (\<forall>name ts tl'.
            map_of smaller name = Some ts \<and> map_of larger name = Some tl' \<and>
            nonNullTypeCases (type ts) \<noteq> [] \<and> nonNullTypeCases (type tl') \<noteq> [] \<longrightarrow>
            typeSetsCanBeCombined sc (nonNullTypeCases (type ts)) (nonNullTypeCases (type tl')))"
      unfolding common_names_set by (auto simp: has_def)
    finally show ?thesis
      using gate ls True by (simp add: k_def maxF_def)
  next
    case False
    then have "maxF < snd (scanSmaller larger maxF smaller ([], 0))"
      using scanSmaller_exceeds [of 0 maxF larger smaller "[]"] nonneg by (simp add: k_def)
    then have "canBeCombined sc c1 c2 = Inr False"
      using unfold by (simp split: prod.splits)
    then show ?thesis
      using gate ls False by (simp add: k_def maxF_def)
  qed
qed

lemma canBeCombined_returns: "\<exists>b. canBeCombined sc c1 c2 = Inr b"
  by (simp add: canBeCombined_char split: prod.splits)

subsection \<open>Symmetry\<close>

lemma fold_byKind_absent:
  "k \<notin> kind ` set s \<Longrightarrow> fold (\<lambda>t m. m(kind t \<mapsto> t)) s m k = m k"
proof (induction s arbitrary: m)
  case Nil
  then show ?case by simp
next
  case (Cons a s)
  from Cons.prems have "k \<notin> kind ` set s" and ne: "k \<noteq> kind a" by auto
  from Cons.IH [OF this(1), of "m(kind a \<mapsto> a)"] ne show ?case
    by (simp only: fold_simps fun_upd_apply if_False)
qed

lemma byKind_distinct:
  "distinct (map kind s) \<Longrightarrow> t \<in> set s \<Longrightarrow> byKind s (kind t) = Some t"
proof -
  have "fold (\<lambda>t m. m(kind t \<mapsto> t)) s m (kind t) = Some t"
    if "distinct (map kind s)" "t \<in> set s" for m
    using that
  proof (induction s arbitrary: m)
    case Nil
    then show ?case by simp
  next
    case (Cons a s)
    show ?case
    proof (cases "t = a")
      case True
      from Cons.prems(1) have absent: "kind a \<notin> kind ` set s" by simp
      have "fold (\<lambda>t m. m(kind t \<mapsto> t)) (a # s) m (kind a)
              = fold (\<lambda>t m. m(kind t \<mapsto> t)) s (m(kind a \<mapsto> a)) (kind a)"
        by (simp only: fold_simps)
      also have "\<dots> = (m(kind a \<mapsto> a)) (kind a)"
        by (rule fold_byKind_absent [OF absent])
      also have "\<dots> = Some a"
        by (simp only: fun_upd_same)
      finally show ?thesis using True by (simp only:)
    next
      case False
      with Cons.prems have "distinct (map kind s)" "t \<in> set s" by simp_all
      from Cons.IH [OF this, of "m(kind a \<mapsto> a)"] show ?thesis
        by (simp only: fold_simps)
    qed
  qed
  then show "distinct (map kind s) \<Longrightarrow> t \<in> set s \<Longrightarrow> byKind s (kind t) = Some t"
    by (simp add: byKind_def)
qed

lemma typeSetsCanBeCombined_distinct:
  assumes "distinct (map kind s2)"
  shows "typeSetsCanBeCombined sc s1 s2 =
           (length s1 = length s2 \<and> (\<forall>t \<in> set s1. \<exists>u \<in> set s2. kind u = kind t \<and> sc t u))"
proof (cases "length s1 = length s2")
  case False
  then show ?thesis by (simp add: typeSetsCanBeCombined_def)
next
  case True
  have "(\<exists>other. byKind s2 (kind t) = Some other \<and> sc t other) =
        (\<exists>u \<in> set s2. kind u = kind t \<and> sc t u)" for t
  proof
    assume "\<exists>other. byKind s2 (kind t) = Some other \<and> sc t other"
    then show "\<exists>u \<in> set s2. kind u = kind t \<and> sc t u"
      using byKind_Some by blast
  next
    assume "\<exists>u \<in> set s2. kind u = kind t \<and> sc t u"
    then obtain u where u: "u \<in> set s2" "kind u = kind t" "sc t u" by blast
    from byKind_distinct [OF assms u(1)] u(2) have "byKind s2 (kind t) = Some u" by simp
    with u(3) show "\<exists>other. byKind s2 (kind t) = Some other \<and> sc t other" by blast
  qed
  then have "(\<forall>t \<in> set s1. \<exists>other. byKind s2 (kind t) = Some other \<and> sc t other) =
        (\<forall>t \<in> set s1. \<exists>u \<in> set s2. kind u = kind t \<and> sc t u)"
    by simp
  moreover have "typeSetsCanBeCombined sc s1 s2 =
          (\<forall>t \<in> set s1. \<exists>other. byKind s2 (kind t) = Some other \<and> sc t other)"
    using True by (auto simp: typeSetsCanBeCombined_def list_all_iff split: option.splits)
  ultimately show ?thesis using True by simp
qed

lemma typeSetsCanBeCombined_swap:
  assumes sym: "symp sc"
    and d1: "distinct (map kind s1)" and d2: "distinct (map kind s2)"
    and comb: "typeSetsCanBeCombined sc s1 s2"
  shows "typeSetsCanBeCombined sc s2 s1"
proof -
  from comb have len: "length s1 = length s2"
    and match: "\<forall>t \<in> set s1. \<exists>u \<in> set s2. kind u = kind t \<and> sc t u"
    by (simp_all add: typeSetsCanBeCombined_distinct [OF d2])
  have sub: "kind ` set s1 \<subseteq> kind ` set s2"
  proof
    fix k
    assume "k \<in> kind ` set s1"
    then obtain t where t: "t \<in> set s1" "k = kind t" by blast
    from match t(1) obtain u where "u \<in> set s2" "kind u = kind t" by blast
    with t(2) show "k \<in> kind ` set s2" by (metis imageI)
  qed
  have "card (kind ` set s1) = length s1"
    using distinct_card [OF d1] by simp
  moreover have "card (kind ` set s2) = length s2"
    using distinct_card [OF d2] by simp
  ultimately have "card (kind ` set s2) \<le> card (kind ` set s1)"
    using len by simp
  with sub have kinds: "kind ` set s1 = kind ` set s2"
    by (simp add: card_seteq)
  have inj: "inj_on kind (set s2)"
    using d2 by (simp add: distinct_map)
  have "\<exists>t \<in> set s1. kind t = kind u \<and> sc u t" if u: "u \<in> set s2" for u
  proof -
    from u kinds obtain t where t: "t \<in> set s1" "kind t = kind u" by (metis imageE imageI)
    from match t(1) obtain u' where u': "u' \<in> set s2" "kind u' = kind t" "sc t u'" by blast
    from u' t(2) u inj have "u' = u" by (simp add: inj_on_def)
    with u'(3) sym have "sc u t" by (simp add: sympD)
    with t show ?thesis by blast
  qed
  with len show ?thesis
    by (simp add: typeSetsCanBeCombined_distinct [OF d1])
qed

lemma faults_symmetric:
  assumes d1: "distinct (map fst p1)" and d2: "distinct (map fst p2)"
    and len: "length p1 = length p2"
  shows "length (filter (\<lambda>p. \<not> has p2 (fst p)) p1) = length (filter (\<lambda>p. \<not> has p1 (fst p)) p2)"
proof -
  have count: "length (filter (\<lambda>p. \<not> has q (fst p)) p) = card (fst ` set p - fst ` set q)"
    if "distinct (map fst p)" for p q :: propertyMap
  proof -
    have "length (filter (\<lambda>p. \<not> has q (fst p)) p)
            = length (filter (\<lambda>n. \<not> has q n) (map fst p))"
      by (simp add: filter_map o_def)
    also have "\<dots> = card ({n. \<not> has q n} \<inter> set (map fst p))"
      using that by (rule distinct_length_filter)
    also have "{n. \<not> has q n} \<inter> set (map fst p) = fst ` set p - fst ` set q"
      by (auto simp: has_def map_of_eq_None_iff)
    finally show ?thesis .
  qed
  have c1: "card (fst ` set p1) = length p1" using distinct_card [OF d1] by simp
  have c2: "card (fst ` set p2) = length p2" using distinct_card [OF d2] by simp
  have "card (fst ` set p1 - fst ` set p2) = card (fst ` set p1) - card (fst ` set p1 \<inter> fst ` set p2)"
    by (simp add: card_Diff_subset_Int)
  moreover have "card (fst ` set p2 - fst ` set p1)
      = card (fst ` set p2) - card (fst ` set p1 \<inter> fst ` set p2)"
    by (simp add: card_Diff_subset_Int Int_commute)
  ultimately have "card (fst ` set p1 - fst ` set p2) = card (fst ` set p2 - fst ` set p1)"
    using c1 c2 len by simp
  then show ?thesis by (simp add: count [OF d1] count [OF d2])
qed

lemma wellFormedClass_cases:
  assumes "wellFormedClass c" and "map_of (properties c) name = Some q"
  shows "distinct (map kind (nonNullTypeCases (type q)))"
proof -
  from assms(2) have "(name, q) \<in> set (properties c)" by (rule map_of_SomeD)
  with assms(1) show ?thesis by (auto simp: wellFormedClass_def list_all_iff)
qed

lemma sizeGateRejects_commute: "sizeGateRejects p1 p2 = sizeGateRejects p2 p1"
  by (auto simp: sizeGateRejects_def)

lemma canBeCombined_symmetric:
  assumes sym: "symp sc" and w1: "wellFormedClass c1" and w2: "wellFormedClass c2"
  shows "canBeCombined sc c1 c2 = canBeCombined sc c2 c1"
proof (cases "length (properties c1) = length (properties c2)")
  case False
  then have "largerSmaller (properties c1) (properties c2)
               = largerSmaller (properties c2) (properties c1)"
    by (auto simp: largerSmaller_def)
  then show ?thesis
    by (simp add: canBeCombined_char sizeGateRejects_commute [of "properties c1"])
next
  case True
  let ?p1 = "properties c1" and ?p2 = "properties c2"
  let ?ok = "\<lambda>s l. \<forall>name ts tl'.
      map_of s name = Some ts \<and> map_of l name = Some tl' \<and>
      nonNullTypeCases (type ts) \<noteq> [] \<and> nonNullTypeCases (type tl') \<noteq> [] \<longrightarrow>
      typeSetsCanBeCombined sc (nonNullTypeCases (type ts)) (nonNullTypeCases (type tl'))"
  have ls: "largerSmaller ?p1 ?p2 = (?p2, ?p1)" "largerSmaller ?p2 ?p1 = (?p1, ?p2)"
    using True by (simp_all add: largerSmaller_def)
  have d: "distinct (map fst ?p1)" "distinct (map fst ?p2)"
    using w1 w2 by (simp_all add: wellFormedClass_def)
  have faults: "length (filter (\<lambda>p. \<not> has ?p2 (fst p)) ?p1)
                  = length (filter (\<lambda>p. \<not> has ?p1 (fst p)) ?p2)"
    using d True by (rule faults_symmetric)
  have budget: "maxFaults ?p2 ?p1 = maxFaults ?p1 ?p2"
    using True by (simp add: maxFaults_def minOverlap_def)
  have swap: "?ok b a" if w: "wellFormedClass ca" "wellFormedClass cb"
    and ab: "a = properties ca" "b = properties cb" and ok: "?ok a b" for a b ca cb
  proof (intro allI impI)
    fix name ts tl'
    assume h: "map_of b name = Some ts \<and> map_of a name = Some tl' \<and>
      nonNullTypeCases (type ts) \<noteq> [] \<and> nonNullTypeCases (type tl') \<noteq> []"
    with ok have "typeSetsCanBeCombined sc (nonNullTypeCases (type tl')) (nonNullTypeCases (type ts))"
      by blast
    moreover have "distinct (map kind (nonNullTypeCases (type tl')))"
      using wellFormedClass_cases [OF w(1)] h ab by blast
    moreover have "distinct (map kind (nonNullTypeCases (type ts)))"
      using wellFormedClass_cases [OF w(2)] h ab by blast
    ultimately show "typeSetsCanBeCombined sc (nonNullTypeCases (type ts)) (nonNullTypeCases (type tl'))"
      using typeSetsCanBeCombined_swap [OF sym] by blast
  qed
  have types: "?ok ?p1 ?p2 = ?ok ?p2 ?p1"
    using swap [OF w1 w2 refl refl] swap [OF w2 w1 refl refl] by blast
  have "canBeCombined sc c1 c2 =
      Inr (\<not> sizeGateRejects ?p1 ?p2 \<and>
           int (length (filter (\<lambda>p. \<not> has ?p2 (fst p)) ?p1)) \<le> maxFaults ?p2 ?p1 \<and> ?ok ?p1 ?p2)"
    using canBeCombined_char [of sc c1 c2] ls(1) by simp
  also have "\<dots> =
      Inr (\<not> sizeGateRejects ?p2 ?p1 \<and>
           int (length (filter (\<lambda>p. \<not> has ?p1 (fst p)) ?p2)) \<le> maxFaults ?p1 ?p2 \<and> ?ok ?p2 ?p1)"
    using faults budget types sizeGateRejects_commute [of ?p1 ?p2] by simp
  also have "\<dots> = canBeCombined sc c2 c1"
    using canBeCombined_char [of sc c2 c1] ls(2) by simp
  finally show ?thesis .
qed

subsection \<open>The claims about \<^verbatim>\<open>canBeCombined\<close>\<close>

text \<open>
  Claim C3.  For every pair of classes that passes the size-ratio gate, the quantity
  \<^verbatim>\<open>maxFaults = smaller.size - ceil(larger.size * 0.75)\<close> computed by \<^verbatim>\<open>canBeCombined\<close> is at
  least zero, so the assertion "Max faults negative" holds and \<^verbatim>\<open>canBeCombined\<close> does
  not fail with it.
\<close>

theorem maxFaults_never_negative:
  assumes "\<not> sizeGateRejects (properties c1) (properties c2)"
    and "largerSmaller (properties c1) (properties c2) = (larger, smaller)"
  shows "0 \<le> maxFaults larger smaller \<and>
         int (length smaller) - \<lceil>of_nat (length larger) * (3 / 4 :: rat)\<rceil> \<ge> 0 \<and>
         assert (maxFaults larger smaller \<ge> 0) ''Max faults negative'' = Inr () \<and>
         canBeCombined sc c1 c2 \<noteq> Inl (AssertionFailure ''Max faults negative'')"
proof -
  have nonneg: "0 \<le> maxFaults larger smaller"
    using maxFaults_nonneg_aux [OF assms(1)] assms(2) by simp
  moreover from nonneg have "int (length smaller) - \<lceil>of_nat (length larger) * (3 / 4 :: rat)\<rceil> \<ge> 0"
    by (simp add: maxFaults_def minOverlap_def REQUIRED_OVERLAP_def)
  moreover from nonneg have "assert (maxFaults larger smaller \<ge> 0) ''Max faults negative'' = Inr ()"
    by (simp add: assert_def)
  moreover have "canBeCombined sc c1 c2 \<noteq> Inl (AssertionFailure ''Max faults negative'')"
    using canBeCombined_returns [of sc c1 c2] by auto
  ultimately show ?thesis by blast
qed

theorem maxFaults_never_negative_witness:
  "\<not> sizeGateRejects (properties exThree) (properties exFour) \<and>
   largerSmaller (properties exThree) (properties exFour) = (properties exFour, properties exThree) \<and>
   maxFaults (properties exFour) (properties exThree) = 0 \<and>
   0 \<le> maxFaults (properties exFour) (properties exThree) \<and>
   canBeCombined structurallyCompatible exThree exFour
     \<noteq> Inl (AssertionFailure ''Max faults negative'')"
proof -
  have gate: "\<not> sizeGateRejects (properties exThree) (properties exFour)"
    by (simp add: sizeGateRejects_def REQUIRED_OVERLAP_def exThree_def exFour_def)
  have ls: "largerSmaller (properties exThree) (properties exFour)
              = (properties exFour, properties exThree)"
    by (simp add: largerSmaller_def exThree_def exFour_def)
  have zero: "maxFaults (properties exFour) (properties exThree) = 0"
    by (simp add: maxFaults_def minOverlap_def REQUIRED_OVERLAP_def exThree_def exFour_def)
  from maxFaults_never_negative [OF gate ls, of structurallyCompatible] gate ls zero
  show ?thesis by simp
qed

text \<open>
  Claim C2.  \<^verbatim>\<open>canBeCombined(c1, c2)\<close> returns false whenever the property count of one
  class is strictly less than 0.75 times the property count of the other; the answer
  depends on the two counts alone, not on any property.  In particular it returns false
  for a class with the properties \<open>{a: String, b: Integer}\<close> and a class with the
  properties \<open>{a: String, b: Integer, c: String}\<close>, in either order.
\<close>

theorem canBeCombined_size_gate:
  "((of_nat (length (properties c1)) :: rat) < of_nat (length (properties c2)) * (3 / 4) \<or>
    (of_nat (length (properties c2)) :: rat) < of_nat (length (properties c1)) * (3 / 4)
      \<longrightarrow> canBeCombined sc c1 c2 = Inr False) \<and>
   canBeCombined sc
     (ClassType r1 [(''a'', ClassProperty String o1), (''b'', ClassProperty Integer o2)] f1)
     (ClassType r2 [(''a'', ClassProperty String o3), (''b'', ClassProperty Integer o4),
                    (''c'', ClassProperty String o5)] f2) = Inr False \<and>
   canBeCombined sc
     (ClassType r2 [(''a'', ClassProperty String o3), (''b'', ClassProperty Integer o4),
                    (''c'', ClassProperty String o5)] f2)
     (ClassType r1 [(''a'', ClassProperty String o1), (''b'', ClassProperty Integer o2)] f1)
       = Inr False"
  by (simp add: canBeCombined_def sizeGateRejects_def REQUIRED_OVERLAP_def)

theorem canBeCombined_size_gate_witness:
  "(of_nat (length (properties exTwo)) :: rat) < of_nat (length (properties exThree)) * (3 / 4) \<and>
   canBeCombined structurallyCompatible exTwo exThree = Inr False \<and>
   canBeCombined structurallyCompatible exThree exTwo = Inr False"
proof -
  have small: "(of_nat (length (properties exTwo)) :: rat)
                 < of_nat (length (properties exThree)) * (3 / 4)"
    by (simp add: exTwo_def exThree_def)
  from canBeCombined_size_gate [of exTwo exThree structurallyCompatible]
    canBeCombined_size_gate [of exThree exTwo structurallyCompatible] small
  show ?thesis by blast
qed

text \<open>
  Claim C1, as the code has it.  Let \<open>larger\<close> and \<open>smaller\<close> be the property maps of the
  two classes by size.  If a property name common to both has non-null type-case sets
  that are non-empty on both sides and not combinable, then \<^verbatim>\<open>canBeCombined(c1, c2)\<close>
  returns false.  A common property whose set is empty on at least one side is not
  compared: \<^verbatim>\<open>canBeCombined\<close> returns true exactly when the size-ratio gate does not
  reject, the properties of the smaller record that the larger lacks are within the
  fault budget, and every common property with two non-empty sets has combinable sets.
\<close>

theorem canBeCombined_spec:
  assumes "largerSmaller (properties c1) (properties c2) = (larger, smaller)"
  shows "(map_of smaller name = Some ts \<and> map_of larger name = Some tl' \<and>
          nonNullTypeCases (type ts) \<noteq> [] \<and> nonNullTypeCases (type tl') \<noteq> [] \<and>
          \<not> typeSetsCanBeCombined sc (nonNullTypeCases (type ts)) (nonNullTypeCases (type tl'))
            \<longrightarrow> canBeCombined sc c1 c2 = Inr False) \<and>
         canBeCombined sc c1 c2 =
           Inr (\<not> sizeGateRejects (properties c1) (properties c2) \<and>
                int (length (filter (\<lambda>p. \<not> has larger (fst p)) smaller))
                  \<le> maxFaults larger smaller \<and>
                (\<forall>name ts tl'.
                   map_of smaller name = Some ts \<and> map_of larger name = Some tl' \<and>
                   nonNullTypeCases (type ts) \<noteq> [] \<and> nonNullTypeCases (type tl') \<noteq> [] \<longrightarrow>
                   typeSetsCanBeCombined sc
                     (nonNullTypeCases (type ts)) (nonNullTypeCases (type tl'))))"
proof -
  let ?compared = "\<forall>name ts tl'.
      map_of smaller name = Some ts \<and> map_of larger name = Some tl' \<and>
      nonNullTypeCases (type ts) \<noteq> [] \<and> nonNullTypeCases (type tl') \<noteq> [] \<longrightarrow>
      typeSetsCanBeCombined sc (nonNullTypeCases (type ts)) (nonNullTypeCases (type tl'))"
  have char: "canBeCombined sc c1 c2 =
      Inr (\<not> sizeGateRejects (properties c1) (properties c2) \<and>
           int (length (filter (\<lambda>p. \<not> has larger (fst p)) smaller)) \<le> maxFaults larger smaller \<and>
           ?compared)"
    using canBeCombined_char [of sc c1 c2] assms by simp
  have "canBeCombined sc c1 c2 = Inr False"
    if conflict: "map_of smaller name = Some ts \<and> map_of larger name = Some tl' \<and>
          nonNullTypeCases (type ts) \<noteq> [] \<and> nonNullTypeCases (type tl') \<noteq> [] \<and>
          \<not> typeSetsCanBeCombined sc (nonNullTypeCases (type ts)) (nonNullTypeCases (type tl'))"
  proof -
    from conflict have "\<not> ?compared" by blast
    then show ?thesis by (simp only: char simp_thms)
  qed
  with char show ?thesis by blast
qed

theorem canBeCombined_spec_witness:
  "largerSmaller (properties exString) (properties exInteger)
     = (properties exInteger, properties exString) \<and>
   map_of (properties exString) ''a'' = Some (plain String) \<and>
   map_of (properties exInteger) ''a'' = Some (plain Integer) \<and>
   nonNullTypeCases (type (plain String)) \<noteq> [] \<and>
   nonNullTypeCases (type (plain Integer)) \<noteq> [] \<and>
   \<not> typeSetsCanBeCombined structurallyCompatible
       (nonNullTypeCases (type (plain String))) (nonNullTypeCases (type (plain Integer))) \<and>
   canBeCombined structurallyCompatible exString exInteger = Inr False"
proof -
  have ls: "largerSmaller (properties exString) (properties exInteger)
              = (properties exInteger, properties exString)"
    by (simp add: largerSmaller_def exString_def exInteger_def)
  have look: "map_of (properties exString) ''a'' = Some (plain String)"
    "map_of (properties exInteger) ''a'' = Some (plain Integer)"
    by (simp_all add: exString_def exInteger_def)
  have cases: "nonNullTypeCases (type (plain String)) \<noteq> []"
    "nonNullTypeCases (type (plain Integer)) \<noteq> []"
    by (simp_all add: plain_def)
  have conflict: "\<not> typeSetsCanBeCombined structurallyCompatible
       (nonNullTypeCases (type (plain String))) (nonNullTypeCases (type (plain Integer)))"
    by (simp add: plain_def typeSetsCanBeCombined_def byKind_def)
  from canBeCombined_spec [OF ls, of "''a''" "plain String" "plain Integer" structurallyCompatible]
    look cases conflict
  have "canBeCombined structurallyCompatible exString exInteger = Inr False"
    by blast
  with ls look cases conflict show ?thesis by blast
qed

theorem canBeCombined_either_side_counterexample:
  "\<not> sizeGateRejects (properties exString) (properties exNull) \<and>
   largerSmaller (properties exString) (properties exNull)
     = (properties exNull, properties exString) \<and>
   int (length (filter (\<lambda>p. \<not> has (properties exNull) (fst p)) (properties exString)))
     \<le> maxFaults (properties exNull) (properties exString) \<and>
   map_of (properties exString) ''a'' = Some (plain String) \<and>
   map_of (properties exNull) ''a'' = Some (plain Null) \<and>
   nonNullTypeCases (type (plain String)) \<noteq> [] \<and>
   \<not> typeSetsCanBeCombined structurallyCompatible
       (nonNullTypeCases (type (plain String))) (nonNullTypeCases (type (plain Null))) \<and>
   \<not> typeSetsCanBeCombined structurallyCompatible
       (nonNullTypeCases (type (plain Null))) (nonNullTypeCases (type (plain String))) \<and>
   canBeCombined structurallyCompatible exString exNull = Inr True"
  by (simp add: exString_def exNull_def plain_def canBeCombined_def sizeGateRejects_def
      REQUIRED_OVERLAP_def largerSmaller_def maxFaults_def minOverlap_def assert_def has_def
      typeSetsCanBeCombined_def)

text \<open>
  Claim C7, as the code has it.  \<^verbatim>\<open>canBeCombined\<close> is symmetric whenever the
  structural-compatibility predicate is symmetric and the two classes are well formed
  (unique property names, non-null type cases of pairwise different kinds): a tie in
  size swaps the roles of the two records, and neither the fault count nor the
  comparison of the common properties depends on the roles.  It is not transitive: the
  well-formed classes \<open>{a: String}\<close>, \<open>{a: Null}\<close> and \<open>{a: Integer}\<close> are such that the
  first combines with the second and the second with the third, yet the first does not
  combine with the third, for every structural-compatibility predicate.
\<close>

theorem canBeCombined_symmetric_not_transitive:
  "(symp sc \<and> wellFormedClass c1 \<and> wellFormedClass c2
      \<longrightarrow> canBeCombined sc c1 c2 = canBeCombined sc c2 c1) \<and>
   wellFormedClass exString \<and> wellFormedClass exNull \<and> wellFormedClass exInteger \<and>
   canBeCombined sc exString exNull = Inr True \<and>
   canBeCombined sc exNull exInteger = Inr True \<and>
   canBeCombined sc exString exInteger = Inr False"
proof -
  have symmetric: "symp sc \<and> wellFormedClass c1 \<and> wellFormedClass c2
      \<longrightarrow> canBeCombined sc c1 c2 = canBeCombined sc c2 c1"
    using canBeCombined_symmetric by blast
  have wf: "wellFormedClass exString" "wellFormedClass exNull" "wellFormedClass exInteger"
    by (simp_all add: wellFormedClass_def exString_def exNull_def exInteger_def plain_def)
  have triple: "canBeCombined sc exString exNull = Inr True"
    "canBeCombined sc exNull exInteger = Inr True"
    "canBeCombined sc exString exInteger = Inr False"
    by (simp_all add: exString_def exNull_def exInteger_def plain_def canBeCombined_def
        sizeGateRejects_def REQUIRED_OVERLAP_def largerSmaller_def maxFaults_def minOverlap_def
        assert_def has_def typeSetsCanBeCombined_def byKind_def)
  from symmetric wf triple show ?thesis by blast
qed

theorem canBeCombined_symmetric_not_transitive_witness:
  "symp structurallyCompatible \<and> wellFormedClass exThree \<and> wellFormedClass exFour \<and>
   canBeCombined structurallyCompatible exThree exFour = Inr True \<and>
   canBeCombined structurallyCompatible exFour exThree = Inr True"
proof -
  have sym: "symp structurallyCompatible"
    by (rule sympI) (simp add: structurallyCompatible_def)
  have wf: "wellFormedClass exThree" "wellFormedClass exFour"
    by (simp_all add: wellFormedClass_def exThree_def exFour_def plain_def)
  have run: "canBeCombined structurallyCompatible exThree exFour = Inr True"
    by (simp add: exThree_def exFour_def plain_def canBeCombined_def sizeGateRejects_def
        REQUIRED_OVERLAP_def largerSmaller_def maxFaults_def minOverlap_def assert_def has_def
        typeSetsCanBeCombined_def byKind_def structurallyCompatible_def)
  from canBeCombined_symmetric_not_transitive [of structurallyCompatible exThree exFour] sym wf
  have "canBeCombined structurallyCompatible exThree exFour
          = canBeCombined structurallyCompatible exFour exThree"
    by blast
  with sym wf run show ?thesis by simp
qed

theorem canBeCombined_asymmetry_counterexample:
  "\<not> (\<exists>sc c1 c2. symp sc \<and> wellFormedClass c1 \<and> wellFormedClass c2 \<and>
         canBeCombined sc c1 c2 \<noteq> canBeCombined sc c2 c1)"
  using canBeCombined_symmetric by blast

section \<open>The clique finder: theorems\<close>

subsection \<open>One call of \<^verbatim>\<open>tryAddToClique\<close>\<close>

lemma anyCanBeCombined_char:
  "anyCanBeCombined sc ps c = Inr (\<exists>p \<in> set ps. canBeCombined sc p c = Inr True)"
proof (induction ps)
  case Nil
  then show ?case by simp
next
  case (Cons p ps)
  obtain b where b: "canBeCombined sc p c = Inr b"
    using canBeCombined_returns by blast
  show ?case
  proof (cases b)
    case True
    with b show ?thesis by simp
  next
    case False
    with b Cons.IH show ?thesis by simp
  qed
qed

lemma tryAddToClique_char:
  "tryAddToClique sc c clique =
     (if \<exists>p \<in> set (prototypes clique). sc (Class p) (Class c)
      then Inr (True, clique\<lparr>members := members clique @ [c]\<rparr>)
      else if \<exists>p \<in> set (prototypes clique). canBeCombined sc p c = Inr True
      then Inr (True, clique\<lparr>prototypes := prototypes clique @ [c],
                             members := members clique @ [c]\<rparr>)
      else Inr (False, clique))"
  by (simp add: tryAddToClique_def anyCanBeCombined_char list_ex_iff)

lemma tryAddToClique_cases:
  obtains (exact) "tryAddToClique sc c clique = Inr (True, clique\<lparr>members := members clique @ [c]\<rparr>)"
  | (fuzzy) "tryAddToClique sc c clique =
      Inr (True, clique\<lparr>prototypes := prototypes clique @ [c], members := members clique @ [c]\<rparr>)"
  | (neither) "tryAddToClique sc c clique = Inr (False, clique)"
  unfolding tryAddToClique_char [of sc c clique]
  by (cases "\<exists>p \<in> set (prototypes clique). sc (Class p) (Class c)";
      cases "\<exists>p \<in> set (prototypes clique). canBeCombined sc p c = Inr True")
    (simp_all only: if_True if_False)

text \<open>
  Claim C4.  \<^verbatim>\<open>tryAddToClique(c, clique)\<close>: if some current prototype is structurally
  compatible with \<open>c\<close>, then \<open>c\<close> is appended to the members only and the prototypes are
  unchanged; otherwise, if \<^verbatim>\<open>canBeCombined\<close> holds between some current prototype and
  \<open>c\<close>, then \<open>c\<close> is appended to both the prototypes and the members; otherwise the
  clique is left as it was and the call returns false.  The call never fails.
\<close>

theorem tryAddToClique_spec:
  "tryAddToClique sc c clique =
     (if \<exists>p \<in> set (prototypes clique). sc (Class p) (Class c)
      then Inr (True, \<lparr>members = members clique @ [c], prototypes = prototypes clique\<rparr>)
      else if \<exists>p \<in> set (prototypes clique). canBeCombined sc p c = Inr True
      then Inr (True, \<lparr>members = members clique @ [c], prototypes = prototypes clique @ [c]\<rparr>)
      else Inr (False, clique))"
  by (simp add: tryAddToClique_char)

theorem tryAddToClique_spec_witness:
  "tryAddToClique structurallyCompatible exThree \<lparr>members = [exFour], prototypes = [exFour]\<rparr>
     = Inr (True, \<lparr>members = [exFour, exThree], prototypes = [exFour, exThree]\<rparr>) \<and>
   tryAddToClique structurallyCompatible exTwo \<lparr>members = [exFour], prototypes = [exFour]\<rparr>
     = Inr (False, \<lparr>members = [exFour], prototypes = [exFour]\<rparr>) \<and>
   tryAddToClique structurallyCompatible (ClassType 9 (properties exFour) False)
       \<lparr>members = [exFour], prototypes = [exFour]\<rparr>
     = Inr (True, \<lparr>members = [exFour, ClassType 9 (properties exFour) False],
                    prototypes = [exFour]\<rparr>)"
proof -
  have c1: "canBeCombined structurallyCompatible exFour exThree = Inr True"
    by (simp add: exThree_def exFour_def plain_def canBeCombined_def sizeGateRejects_def
        REQUIRED_OVERLAP_def largerSmaller_def maxFaults_def minOverlap_def assert_def has_def
        typeSetsCanBeCombined_def byKind_def structurallyCompatible_def)
  have c2: "canBeCombined structurallyCompatible exFour exTwo = Inr False"
    by (simp add: exTwo_def exFour_def canBeCombined_def sizeGateRejects_def REQUIRED_OVERLAP_def)
  have s1: "\<not> structurallyCompatible (Class exFour) (Class exThree)"
    by (simp add: structurallyCompatible_def exFour_def exThree_def)
  have s2: "\<not> structurallyCompatible (Class exFour) (Class exTwo)"
    by (simp add: structurallyCompatible_def exFour_def exTwo_def)
  have s3: "structurallyCompatible (Class exFour) (Class (ClassType 9 (properties exFour) False))"
    by (simp add: structurallyCompatible_def exFour_def)
  show ?thesis
    using c1 c2 s1 s2 s3
      tryAddToClique_spec [of structurallyCompatible exThree
        "\<lparr>members = [exFour], prototypes = [exFour]\<rparr>"]
      tryAddToClique_spec [of structurallyCompatible exTwo
        "\<lparr>members = [exFour], prototypes = [exFour]\<rparr>"]
      tryAddToClique_spec [of structurallyCompatible "ClassType 9 (properties exFour) False"
        "\<lparr>members = [exFour], prototypes = [exFour]\<rparr>"]
    by simp
qed

subsection \<open>The scan of one round\<close>

lemma scanCandidates_returns:
  "\<exists>clique' classesLeft'. scanCandidates sc cs clique classesLeft = Inr (clique', classesLeft')"
proof (induction cs arbitrary: clique classesLeft)
  case Nil
  then show ?case by simp
next
  case (Cons c cs)
  show ?case
    by (rule tryAddToClique_cases [of sc c clique]) (simp_all add: Cons.IH)
qed

lemma scanCandidates_append:
  "scanCandidates sc (xs @ ys) clique classesLeft =
     (case scanCandidates sc xs clique classesLeft of
        Inl e \<Rightarrow> Inl e
      | Inr (clique', classesLeft') \<Rightarrow> scanCandidates sc ys clique' classesLeft')"
proof (induction xs arbitrary: clique classesLeft)
  case Nil
  then show ?case by simp
next
  case (Cons c xs)
  show ?case
    by (rule tryAddToClique_cases [of sc c clique]) (simp_all add: Cons.IH)
qed

lemma scanCandidates_mset:
  "scanCandidates sc cs clique classesLeft = Inr (clique', classesLeft') \<Longrightarrow>
   mset (members clique') + mset classesLeft' = mset (members clique) + mset classesLeft + mset cs"
proof (induction cs arbitrary: clique classesLeft)
  case Nil
  then show ?case by simp
next
  case (Cons c cs)
  show ?case
  proof (rule tryAddToClique_cases [of sc c clique])
    assume "tryAddToClique sc c clique = Inr (True, clique\<lparr>members := members clique @ [c]\<rparr>)"
    with Cons.prems Cons.IH [of "clique\<lparr>members := members clique @ [c]\<rparr>" classesLeft]
    show ?thesis by simp
  next
    assume "tryAddToClique sc c clique =
      Inr (True, clique\<lparr>prototypes := prototypes clique @ [c], members := members clique @ [c]\<rparr>)"
    with Cons.prems
      Cons.IH [of "clique\<lparr>prototypes := prototypes clique @ [c], members := members clique @ [c]\<rparr>"
        classesLeft]
    show ?thesis by simp
  next
    assume "tryAddToClique sc c clique = Inr (False, clique)"
    with Cons.prems Cons.IH [of clique "classesLeft @ [c]"]
    show ?thesis by simp
  qed
qed



lemma scanCandidates_no_match:
  "\<forall>c \<in> set cs. tryAddToClique sc c clique = Inr (False, clique) \<Longrightarrow>
   scanCandidates sc cs clique classesLeft = Inr (clique, classesLeft @ cs)"
  by (induction cs arbitrary: classesLeft) simp_all



subsection \<open>The rounds\<close>

lemma cliqueLoop_char:
  "\<exists>new. cliqueLoop sc unprocessedClasses cliques = Inr (cliques @ new) \<and>
         mset (concat new) \<subseteq># mset unprocessedClasses \<and>
         (\<forall>clique \<in> set new. 2 \<le> length clique)"
proof (induction sc unprocessedClasses cliques rule: cliqueLoop.induct)
  case (1 sc cliques)
  show ?case by simp
next
  case (2 sc seed rest cliques)
  obtain clique classesLeft where
    run: "scanCandidates sc rest \<lparr>members = [seed], prototypes = [seed]\<rparr> []
            = Inr (clique, classesLeft)"
    using scanCandidates_returns by blast
  define emitted where
    "emitted = (if length (members clique) > 1 then [members clique] else [])"
  have acc: "(if length (members clique) > 1 then cliques @ [members clique] else cliques)
               = cliques @ emitted"
    by (simp add: emitted_def)
  from "2.IH" [OF run refl] acc obtain new where
    new: "cliqueLoop sc classesLeft (cliques @ emitted) = Inr ((cliques @ emitted) @ new)"
      "mset (concat new) \<subseteq># mset classesLeft"
      "\<forall>clique \<in> set new. 2 \<le> length clique"
    by auto
  have split: "mset (members clique) + mset classesLeft = mset (seed # rest)"
    using scanCandidates_mset [OF run] by simp
  have "mset (concat emitted) \<subseteq># mset (members clique)"
    by (simp add: emitted_def)
  with new(2) have "mset (concat (emitted @ new)) \<subseteq># mset (members clique) + mset classesLeft"
    by (simp add: subset_mset.add_mono)
  with split have sub: "mset (concat (emitted @ new)) \<subseteq># mset (seed # rest)"
    by simp
  have two: "\<forall>clique \<in> set (emitted @ new). 2 \<le> length clique"
    using new(3) by (auto simp: emitted_def)
  have "cliqueLoop sc (seed # rest) cliques = Inr (cliques @ (emitted @ new))"
    using run acc new(1) by simp
  with sub two show ?case by blast
qed

lemma cliqueLoop_unmatched_seed:
  assumes "\<forall>c \<in> set rest. \<not> sc (Class seed) (Class c) \<and> canBeCombined sc seed c \<noteq> Inr True"
  shows "cliqueLoop sc (seed # rest) cliques = cliqueLoop sc rest cliques"
proof -
  have "\<forall>c \<in> set rest. tryAddToClique sc c \<lparr>members = [seed], prototypes = [seed]\<rparr>
          = Inr (False, \<lparr>members = [seed], prototypes = [seed]\<rparr>)"
    using assms by (simp add: tryAddToClique_char)
  then have "scanCandidates sc rest \<lparr>members = [seed], prototypes = [seed]\<rparr> []
               = Inr (\<lparr>members = [seed], prototypes = [seed]\<rparr>, rest)"
    using scanCandidates_no_match [of rest sc _ "[]"] by simp
  then show ?thesis by simp
qed

lemma distinct_concat_nth_disjoint:
  "distinct (concat xss) \<Longrightarrow> i < j \<Longrightarrow> j < length xss \<Longrightarrow> set (xss ! i) \<inter> set (xss ! j) = {}"
proof (induction xss arbitrary: i j)
  case Nil
  then show ?case by simp
next
  case (Cons xs xss)
  obtain j' where j: "j = Suc j'" using Cons.prems(2) by (cases j) simp_all
  show ?case
  proof (cases i)
    case 0
    from Cons.prems j have "xss ! j' \<in> set xss" by simp
    with Cons.prems(1) 0 j show ?thesis by auto
  next
    case (Suc i')
    with Cons.prems j Cons.IH [of i' j'] show ?thesis by simp
  qed
qed

lemma distinct_of_submultiset:
  assumes "mset ys \<subseteq># mset xs" and "distinct xs"
  shows "distinct ys"
proof -
  have le: "count (mset ys) a \<le> 1" for a
  proof -
    have "count (mset ys) a \<le> count (mset xs) a"
      using assms(1) by (rule mset_subset_eq_count)
    also have "\<dots> \<le> 1"
      using assms(2) by (simp add: distinct_count_atmost_1)
    finally show ?thesis .
  qed
  have "count (mset ys) a = (if a \<in> set ys then 1 else 0)" for a
  proof (cases "a \<in> set ys")
    case True
    then have "a \<in># mset ys" by simp
    then have "0 < count (mset ys) a" by (simp only: count_greater_zero_iff)
    with le [of a] have "count (mset ys) a = 1" by linarith
    with True show ?thesis by (simp only: if_True)
  next
    case False
    then show ?thesis by (simp add: count_eq_zero_iff)
  qed
  then show ?thesis by (simp only: distinct_count_atmost_1) simp
qed

lemma findSimilarityCliques_char:
  "\<exists>cliques. findSimilarityCliques sc graph includeFixedClasses = Inr cliques \<and>
     mset (concat cliques)
       \<subseteq># mset (filter (\<lambda>c. includeFixedClasses \<or> \<not> isFixed c) (allNamedClasses graph)) \<and>
     (\<forall>clique \<in> set cliques. 2 \<le> length clique)"
  using cliqueLoop_char
    [of sc "filter (\<lambda>c. includeFixedClasses \<or> \<not> isFixed c) (allNamedClasses graph)" "[]"]
  by (simp add: findSimilarityCliques_def)

text \<open>
  Claim C5.  For every graph \<^verbatim>\<open>findSimilarityCliques\<close> returns; every clique it returns has
  at least two members, all of them candidates.  The graph enumerates its classes by
  reference, each once; then no reference occurs twice in the cliques taken together, so
  the cliques are pairwise disjoint and every class is in at most one of them.  In any
  round, a seed that matches none of the remaining candidates is dropped with nothing
  emitted: the loop goes on as if it had started from the remaining candidates.
\<close>

theorem findSimilarityCliques_disjoint:
  "\<exists>cliques. findSimilarityCliques sc graph includeFixedClasses = Inr cliques \<and>
     (\<forall>clique \<in> set cliques. 2 \<le> length clique) \<and>
     set (concat cliques)
       \<subseteq> {c \<in> set (allNamedClasses graph). includeFixedClasses \<or> \<not> isFixed c} \<and>
     (distinct (map typeRef (allNamedClasses graph)) \<longrightarrow>
        distinct (map typeRef (concat cliques)) \<and>
        (\<forall>i j. i < j \<and> j < length cliques \<longrightarrow> set (cliques ! i) \<inter> set (cliques ! j) = {}) \<and>
        (\<forall>c. count_list (concat cliques) c \<le> 1)) \<and>
     (\<forall>seed rest acc.
        (\<forall>c \<in> set rest. \<not> sc (Class seed) (Class c) \<and> canBeCombined sc seed c \<noteq> Inr True)
          \<longrightarrow> cliqueLoop sc (seed # rest) acc = cliqueLoop sc rest acc)"
proof -
  let ?cands = "filter (\<lambda>c. includeFixedClasses \<or> \<not> isFixed c) (allNamedClasses graph)"
  obtain cliques where
    res: "findSimilarityCliques sc graph includeFixedClasses = Inr cliques" and
    sub: "mset (concat cliques) \<subseteq># mset ?cands" and
    two: "\<forall>clique \<in> set cliques. 2 \<le> length clique"
    using findSimilarityCliques_char by blast
  have cand: "set (concat cliques)
       \<subseteq> {c \<in> set (allNamedClasses graph). includeFixedClasses \<or> \<not> isFixed c}"
    using set_mset_mono [OF sub] by auto
  have once: "distinct (map typeRef (concat cliques)) \<and>
        (\<forall>i j. i < j \<and> j < length cliques \<longrightarrow> set (cliques ! i) \<inter> set (cliques ! j) = {}) \<and>
        (\<forall>c. count_list (concat cliques) c \<le> 1)"
    if refs: "distinct (map typeRef (allNamedClasses graph))"
  proof -
    have "distinct (map typeRef ?cands)"
      using refs by (rule distinct_map_filter)
    moreover have "mset (map typeRef (concat cliques)) \<subseteq># mset (map typeRef ?cands)"
      using image_mset_subseteq_mono [OF sub, of typeRef] by (simp only: mset_map)
    ultimately have dref: "distinct (map typeRef (concat cliques))"
      by (rule distinct_of_submultiset [rotated])
    then have d: "distinct (concat cliques)"
      by (simp add: distinct_map)
    have "\<forall>i j. i < j \<and> j < length cliques \<longrightarrow> set (cliques ! i) \<inter> set (cliques ! j) = {}"
      using distinct_concat_nth_disjoint [OF d] by blast
    moreover have "\<forall>c. count_list (concat cliques) c \<le> 1"
      using d by (simp add: distinct_count_atmost_1 flip: count_mset)
    ultimately show ?thesis using dref by blast
  qed
  have seed: "\<forall>seed rest acc.
        (\<forall>c \<in> set rest. \<not> sc (Class seed) (Class c) \<and> canBeCombined sc seed c \<noteq> Inr True)
          \<longrightarrow> cliqueLoop sc (seed # rest) acc = cliqueLoop sc rest acc"
    using cliqueLoop_unmatched_seed by blast
  from res two cand once seed show ?thesis by blast
qed

theorem findSimilarityCliques_disjoint_witness:
  "distinct (map typeRef (allNamedClasses exGraph)) \<and>
   findSimilarityCliques structurallyCompatible exGraph True
     = Inr [[exThree, exFixed, exFour], [exString, exNull, exInteger]] \<and>
   distinct (map typeRef (concat [[exThree, exFixed, exFour], [exString, exNull, exInteger]])) \<and>
   exTwo \<notin> set (concat [[exThree, exFixed, exFour], [exString, exNull, exInteger]])"
proof -
  have d: "distinct (map typeRef (allNamedClasses exGraph))"
    by (simp add: exGraph_def exTwo_def exThree_def exFixed_def exFour_def exString_def
        exNull_def exInteger_def)
  have run: "findSimilarityCliques structurallyCompatible exGraph True
     = Inr [[exThree, exFixed, exFour], [exString, exNull, exInteger]]"
    by code_simp
  have out: "exTwo \<notin> set (concat [[exThree, exFixed, exFour], [exString, exNull, exInteger]])"
    by (simp add: exTwo_def exThree_def exFixed_def exFour_def exString_def exNull_def
        exInteger_def)
  from findSimilarityCliques_disjoint [of structurallyCompatible exGraph True] d run out
  show ?thesis by auto
qed

section \<open>The orchestrator: theorems\<close>

text \<open>
  Claim C9.  \<^verbatim>\<open>makeCliqueClass\<close>, the replacement-construction step of \<^verbatim>\<open>combineClasses\<close>,
  rejects an empty clique with the assertion failure "Clique can't be empty", whatever
  the collaborators are, so before the unifier is reached; for every clique of size at
  least one its result is that of the unifier applied to the clique and the combined
  attributes of its members.
\<close>

theorem makeCliqueClass_spec:
  "(clique = [] \<longrightarrow>
      makeCliqueClass ext conflateNumbers clique builder forwardingRef
        = Inl (AssertionFailure ''Clique can't be empty'')) \<and>
   (length clique \<ge> 1 \<longrightarrow>
      makeCliqueClass ext conflateNumbers clique builder forwardingRef
        = unifyTypes ext clique (combineTypeAttributes ext (map (getAttributes ext) clique))
            builder (unionBuilderForUnification ext builder False False conflateNumbers)
            conflateNumbers forwardingRef)"
  by (cases clique) (simp_all add: makeCliqueClass_def assert_def)

theorem makeCliqueClass_spec_witness:
  "makeCliqueClass exCollaborators False [] () 0 = Inl (AssertionFailure ''Clique can't be empty'') \<and>
   makeCliqueClass exCollaborators False [exTwo, exThree] () 0 = Inr 0"
  using makeCliqueClass_spec [of "[]" exCollaborators False "()" 0]
    makeCliqueClass_spec [of "[exTwo, exThree]" exCollaborators False "()" 0]
  by (simp add: exCollaborators_def)

text \<open>
  Claim C10.  \<^verbatim>\<open>combineClasses\<close> always calls \<^verbatim>\<open>findSimilarityCliques\<close> with
  \<^verbatim>\<open>includeFixedClasses = false\<close>: for every graph, compatibility predicate,
  collaborators and options, the finder returns cliques, \<^verbatim>\<open>combineClasses\<close> is the
  rewrite of the graph with exactly these cliques, and no class of any of them is fixed.
\<close>

theorem combineClasses_excludes_fixed:
  "\<exists>cliques.
     findSimilarityCliques sc graph False = Inr cliques \<and>
     combineClasses sc ext graph stringTypeMapping alphabetizeProperties conflateNumbers
       = rewrite ext graph ''combine classes'' stringTypeMapping alphabetizeProperties cliques
           (makeCliqueClass ext conflateNumbers) \<and>
     (\<forall>clique \<in> set cliques. \<forall>c \<in> set clique. \<not> isFixed c)"
proof -
  obtain cliques where
    res: "findSimilarityCliques sc graph False = Inr cliques" and
    sub: "mset (concat cliques)
            \<subseteq># mset (filter (\<lambda>c. False \<or> \<not> isFixed c) (allNamedClasses graph))"
    using findSimilarityCliques_char [of sc graph False] by blast
  have "\<forall>clique \<in> set cliques. \<forall>c \<in> set clique. \<not> isFixed c"
    using set_mset_mono [OF sub] by auto
  moreover have "combineClasses sc ext graph stringTypeMapping alphabetizeProperties conflateNumbers
       = rewrite ext graph ''combine classes'' stringTypeMapping alphabetizeProperties cliques
           (makeCliqueClass ext conflateNumbers)"
    using res by (simp add: combineClasses_def)
  ultimately show ?thesis using res by blast
qed

theorem combineClasses_excludes_fixed_witness:
  "isFixed exFixed \<and> exFixed \<in> set (allNamedClasses exGraph) \<and>
   findSimilarityCliques structurallyCompatible exGraph False
     = Inr [[exThree, exFour], [exString, exNull, exInteger]] \<and>
   combineClasses structurallyCompatible exCollaborators exGraph () True False
     = Inr \<lparr>allNamedClasses = [exThree, exFour, exString, exNull, exInteger]\<rparr> \<and>
   list_all (\<lambda>c. \<not> isFixed c) [exThree, exFour, exString, exNull, exInteger]"
proof -
  have run: "findSimilarityCliques structurallyCompatible exGraph False
     = Inr [[exThree, exFour], [exString, exNull, exInteger]]"
    by code_simp
  have fixed: "isFixed exFixed \<and> exFixed \<in> set (allNamedClasses exGraph)"
    by (simp add: exFixed_def exGraph_def)
  from combineClasses_excludes_fixed [of structurallyCompatible exGraph exCollaborators "()" True False]
    run fixed
  show ?thesis by (auto simp: exCollaborators_def)
qed

end
